theory Spec2Isabelle
  imports Complex_Main
begin

section \<open>Data model of the genetic-algorithm search\<close>

text \<open>
  The development embeds \<^verbatim>\<open>textattack/search_methods/genetic_algorithm.py\<close>
  (class \<^verbatim>\<open>GeneticAlgorithm\<close>): \<^verbatim>\<open>_perturb\<close>, \<^verbatim>\<open>_crossover\<close> and
  \<^verbatim>\<open>_perform_search\<close>.

  Scores are Python floats; they are modelled as real numbers (no rounding, no NaN, no
  overflow). The replacement budgets \<^verbatim>\<open>num_replacements_per_word\<close> are a numpy array of
  non-negative integers, modelled as a list of naturals. Python exceptions are values of
  \<open>py_error\<close>.
\<close>

datatype py_error = IndexError | NameError | ValueError

text \<open>
  Modelled from the spec: \<^verbatim>\<open>GoalFunctionResultStatus\<close> is imported from
  \<^verbatim>\<open>textattack.goal_function_results\<close>, which is not among the sources; the search only
  compares a status with \<^verbatim>\<open>SUCCEEDED\<close>. The spec names the statuses in-progress, succeeded
  and failed-budget.
\<close>

datatype goal_function_result_status = SUCCEEDED | IN_PROGRESS | FAILED_BUDGET

text \<open>
  An \<^verbatim>\<open>AttackedText\<close>: its \<^verbatim>\<open>.text\<close> and the three entries of \<^verbatim>\<open>.attack_attrs\<close> that the
  search reads or writes. The optional key \<^verbatim>\<open>"last_transformation"\<close> is an option: the key
  is in the dictionary exactly when the field is not \<open>None\<close>.
\<close>

record attacked_text =
  text_of :: string
  modified_indices :: "nat set"
  newly_modified_indices :: "nat set"
  last_transformation :: "string option"

record goal_function_result =
  result_text :: attacked_text
  score :: real
  goal_status :: goal_function_result_status

record population_member =
  attacked_text :: attacked_text
  result :: goal_function_result
  num_replacements_per_word :: "nat list"

text \<open>
  Every call of a collaborator is logged, in order. The search state is the flag
  \<^verbatim>\<open>self._search_over\<close>, the log, and the position in the stream of random draws.
\<close>

datatype event =
    GetTransformations attacked_text attacked_text "nat list"
  | GetGoalResults "attacked_text list" "goal_function_result list" bool
  | CheckConstraints attacked_text attacked_text attacked_text bool
  | CrossoverOperation population_member population_member

record search_state =
  search_over :: bool
  trace :: "event list"
  rng_pos :: nat

text \<open>
  The object \<^verbatim>\<open>self\<close>: the six configuration attributes of \<^verbatim>\<open>__init__\<close>, the collaborators
  (\<^verbatim>\<open>get_transformations\<close>, \<^verbatim>\<open>get_goal_results\<close>, \<^verbatim>\<open>_check_constraints\<close>, set on the search
  method from outside), the three abstract methods a subclass supplies, and numpy's
  random generator. A collaborator may keep state of its own (a query budget, a cache, a
  random generator): it is a function of the log of all calls made so far.
\<close>

record ga =
  pop_size :: nat
  max_iters :: nat
  temp :: real
  give_up_if_no_improvement :: bool
  post_crossover_check :: bool
  max_crossover_retries :: nat
  get_transformations :: "event list \<Rightarrow> attacked_text \<Rightarrow> attacked_text \<Rightarrow> nat list \<Rightarrow> attacked_text list"
  get_goal_results :: "event list \<Rightarrow> attacked_text list \<Rightarrow> goal_function_result list \<times> bool"
  check_constraints :: "event list \<Rightarrow> attacked_text \<Rightarrow> attacked_text \<Rightarrow> attacked_text \<Rightarrow> bool"
  modify_population_member ::
    "population_member \<Rightarrow> attacked_text \<Rightarrow> goal_function_result \<Rightarrow> nat \<Rightarrow> population_member"
  crossover_operation ::
    "event list \<Rightarrow> population_member \<Rightarrow> population_member \<Rightarrow> attacked_text \<times> nat list"
  initialize_population ::
    "goal_function_result \<Rightarrow> nat \<Rightarrow> search_state \<Rightarrow> py_error + (population_member list \<times> search_state)"
  random_raw :: "nat \<Rightarrow> nat"
  random_uniform :: "nat \<Rightarrow> real"

section \<open>Calls of the collaborators\<close>

text \<open>
  Each call hands the collaborator the log so far and appends its own entry.
  \<^verbatim>\<open>new_results, self._search_over = self.get_goal_results(texts)\<close> also stores the flag
  the oracle reports.
\<close>

definition call_get_transformations ::
  "ga \<Rightarrow> attacked_text \<Rightarrow> attacked_text \<Rightarrow> nat list \<Rightarrow> search_state \<Rightarrow>
   attacked_text list \<times> search_state" where
  "call_get_transformations self current_text original_text indices_to_modify s =
     (get_transformations self (trace s) current_text original_text indices_to_modify,
      s\<lparr>trace := trace s @ [GetTransformations current_text original_text indices_to_modify]\<rparr>)"

definition call_get_goal_results ::
  "ga \<Rightarrow> attacked_text list \<Rightarrow> search_state \<Rightarrow> goal_function_result list \<times> search_state" where
  "call_get_goal_results self texts s =
     (fst (get_goal_results self (trace s) texts),
      s\<lparr>search_over := snd (get_goal_results self (trace s) texts),
        trace := trace s @
          [GetGoalResults texts (fst (get_goal_results self (trace s) texts))
             (snd (get_goal_results self (trace s) texts))]\<rparr>)"

definition call_check_constraints ::
  "ga \<Rightarrow> attacked_text \<Rightarrow> attacked_text \<Rightarrow> attacked_text \<Rightarrow> search_state \<Rightarrow> bool \<times> search_state" where
  "call_check_constraints self new_text previous_text original_text s =
     (check_constraints self (trace s) new_text previous_text original_text,
      s\<lparr>trace := trace s @
          [CheckConstraints new_text previous_text original_text
             (check_constraints self (trace s) new_text previous_text original_text)]\<rparr>)"

definition call_crossover_operation ::
  "ga \<Rightarrow> population_member \<Rightarrow> population_member \<Rightarrow> search_state \<Rightarrow>
   (attacked_text \<times> nat list) \<times> search_state" where
  "call_crossover_operation self pop_member1 pop_member2 s =
     (crossover_operation self (trace s) pop_member1 pop_member2,
      s\<lparr>trace := trace s @ [CrossoverOperation pop_member1 pop_member2]\<rparr>)"

section \<open>Random choice and selection probabilities\<close>

text \<open>
  \<^verbatim>\<open>np.random.choice(a, p=p)\<close> returns an index of positive probability. The model picks,
  from the raw draw \<open>r\<close>, one of the indices whose probability is positive; any of them can be
  picked. numpy raises \<^verbatim>\<open>ValueError\<close> when \<open>p\<close> has not \<open>a\<close> entries or does not sum to 1
  (in particular when it is all zeros or NaN, after a division by zero).
\<close>

definition support :: "real list \<Rightarrow> nat list" where
  "support p = filter (\<lambda>i. 0 < p ! i) [0..<length p]"

definition random_choice :: "nat \<Rightarrow> nat \<Rightarrow> real list \<Rightarrow> py_error + nat" where
  "random_choice r a p =
     (if length p \<noteq> a \<or> support p = [] then Inl ValueError
      else Inr (support p ! (r mod length (support p))))"

text \<open>\<^verbatim>\<open>np.random.choice(a, size=size, p=p)\<close>: \<open>size\<close> draws, one raw draw each.\<close>

definition random_choices ::
  "ga \<Rightarrow> nat \<Rightarrow> nat \<Rightarrow> real list \<Rightarrow> search_state \<Rightarrow> py_error + (nat list \<times> search_state)" where
  "random_choices self a n p s =
     (if length p \<noteq> a \<or> support p = [] then Inl ValueError
      else Inr (map (\<lambda>k. support p ! (random_raw self (rng_pos s + k) mod length (support p))) [0..<n],
                s\<lparr>rng_pos := rng_pos s + n\<rparr>))"

text \<open>
  Lines 228-230:
  \<^verbatim>\<open>logits = ((-pop_scores) / self.temp).exp(); select_probs = logits / logits.sum()\<close>.
\<close>

definition select_probs :: "real \<Rightarrow> real list \<Rightarrow> real list" where
  "select_probs tmp pop_scores =
     (let logits = map (\<lambda>sc. exp ((- sc) / tmp)) pop_scores
      in map (\<lambda>l. l / sum_list logits) logits)"

section \<open>The mutation operator\<close>

definition count_nonzero :: "nat list \<Rightarrow> nat" where
  "count_nonzero xs = length (filter (\<lambda>x. x \<noteq> 0) xs)"

text \<open>\<^verbatim>\<open>diff_scores.argmax()\<close>: the first index of a maximal entry.\<close>

fun argmax :: "real list \<Rightarrow> nat" where
  "argmax [] = 0"
| "argmax [x] = 0"
| "argmax (x # y # ys) = (let j = argmax (y # ys) in if x < (y # ys) ! j then Suc j else 0)"

text \<open>
  Lines 71-77. Python's \<^verbatim>\<open>if index:\<close> is false for \<^verbatim>\<open>None\<close> and for the integer 0.
\<close>

definition sample_index ::
  "ga \<Rightarrow> nat option \<Rightarrow> nat list \<Rightarrow> search_state \<Rightarrow> py_error + (nat \<times> search_state)" where
  "sample_index self index nrpw s =
     (case index of
        Some (Suc i) \<Rightarrow> Inr (Suc i, s)
      | _ \<Rightarrow>
         (let w_select_probs = map (\<lambda>n. real n / real (sum_list nrpw)) nrpw
          in case random_choice (random_raw self (rng_pos s)) (length nrpw) w_select_probs of
               Inl e \<Rightarrow> Inl e
             | Inr idx \<Rightarrow> Inr (idx, s\<lparr>rng_pos := Suc (rng_pos s)\<rparr>)))"

text \<open>
  The \<^verbatim>\<open>while iterations < non_zero_indices\<close> loop of lines 70-108. The counter is carried as
  \<open>remaining = non_zero_indices - iterations\<close>; \<open>nrpw\<close> is the local copy of the budgets.
\<close>

fun perturb_loop ::
  "ga \<Rightarrow> population_member \<Rightarrow> goal_function_result \<Rightarrow> nat option \<Rightarrow> nat \<Rightarrow> nat list \<Rightarrow>
   search_state \<Rightarrow> py_error + (population_member \<times> search_state)" where
  "perturb_loop self pop_member original_result index 0 nrpw s = Inr (pop_member, s)"
| "perturb_loop self pop_member original_result index (Suc remaining) nrpw s =
     (case sample_index self index nrpw s of
        Inl e \<Rightarrow> Inl e
      | Inr (idx, s1) \<Rightarrow>
         (case call_get_transformations self (attacked_text pop_member)
                 (result_text original_result) [idx] s1 of
            (transformed_texts, s2) \<Rightarrow>
              if transformed_texts = [] then
                perturb_loop self pop_member original_result index remaining nrpw s2
              else
                (case call_get_goal_results self transformed_texts s2 of
                   (new_results, s3) \<Rightarrow>
                     if search_over s3 then Inr (pop_member, s3)
                     else
                       (let diff_scores =
                              map (\<lambda>r. score r - score (result pop_member)) new_results
                        in if diff_scores \<noteq> [] \<and> 0 < Max (set diff_scores) then
                             (let idx_with_max_score = argmax diff_scores
                              in if idx_with_max_score < length transformed_texts then
                                   Inr (modify_population_member self pop_member
                                          (transformed_texts ! idx_with_max_score)
                                          (new_results ! idx_with_max_score) idx, s3)
                                 else Inl IndexError)
                           else if idx < length nrpw then
                             perturb_loop self pop_member original_result index remaining
                               (nrpw[idx := 0]) s3
                           else Inl IndexError))))"

definition perturb ::
  "ga \<Rightarrow> population_member \<Rightarrow> goal_function_result \<Rightarrow> nat option \<Rightarrow> search_state \<Rightarrow>
   py_error + (population_member \<times> search_state)" where
  "perturb self pop_member original_result index s =
     (let nrpw = num_replacements_per_word pop_member;
          non_zero_indices = count_nonzero nrpw
      in if non_zero_indices = 0 then Inr (pop_member, s)
         else perturb_loop self pop_member original_result index non_zero_indices nrpw s)"

section \<open>The crossover operator\<close>

text \<open>
  Lines 146-158: the child's \<^verbatim>\<open>modified_indices\<close> and \<^verbatim>\<open>last_transformation\<close> are set from the
  parents' texts. The subclass's \<^verbatim>\<open>_crossover_operation\<close> is taken to return a fresh text
  object, so the assignments do not touch the parents.
\<close>

definition child_text :: "attacked_text \<Rightarrow> attacked_text \<Rightarrow> attacked_text \<Rightarrow> attacked_text" where
  "child_text x1_text x2_text new_text =
     (let replaced_indices = newly_modified_indices new_text;
          new_text1 = new_text\<lparr>modified_indices :=
             (modified_indices x1_text - replaced_indices) \<union>
             (modified_indices x2_text \<inter> replaced_indices)\<rparr>
      in if last_transformation x1_text \<noteq> None then
           new_text1\<lparr>last_transformation := last_transformation x1_text\<rparr>
         else if last_transformation x2_text \<noteq> None then
           new_text1\<lparr>last_transformation := last_transformation x2_text\<rparr>
         else new_text1)"

text \<open>
  The \<^verbatim>\<open>while num_tries < self.max_crossover_retries + 1\<close> loop of lines 141-180, with
  \<open>remaining = max_crossover_retries + 1 - num_tries\<close>. It returns the loop's variables
  \<^verbatim>\<open>(new_text, num_replacements_per_word)\<close> (unbound before the first pass) and
  \<^verbatim>\<open>passed_constraints\<close>.
\<close>

fun crossover_loop ::
  "ga \<Rightarrow> population_member \<Rightarrow> population_member \<Rightarrow> attacked_text \<Rightarrow> nat \<Rightarrow>
   (attacked_text \<times> nat list) option \<Rightarrow> bool \<Rightarrow> search_state \<Rightarrow>
   (attacked_text \<times> nat list) option \<times> bool \<times> search_state" where
  "crossover_loop self pop_member1 pop_member2 original_text 0 child passed_constraints s =
     (child, passed_constraints, s)"
| "crossover_loop self pop_member1 pop_member2 original_text (Suc remaining) child passed_constraints s =
     (case call_crossover_operation self pop_member1 pop_member2 s of
        ((raw_text, nrpw), s1) \<Rightarrow>
          (let x1_text = attacked_text pop_member1;
               x2_text = attacked_text pop_member2;
               new_text = child_text x1_text x2_text raw_text
           in if \<not> post_crossover_check self \<or>
                 (text_of new_text = text_of x1_text \<or> text_of new_text = text_of x2_text) then
                (Some (new_text, nrpw), passed_constraints, s1)
              else if last_transformation new_text \<noteq> None then
                (case call_check_constraints self new_text
                        (if last_transformation x1_text \<noteq> None then x1_text else x2_text)
                        original_text s1 of
                   (passed, s2) \<Rightarrow>
                     if passed then (Some (new_text, nrpw), True, s2)
                     else crossover_loop self pop_member1 pop_member2 original_text remaining
                            (Some (new_text, nrpw)) False s2)
              else (Some (new_text, nrpw), True, s1)))"

text \<open>
  \<^verbatim>\<open>_crossover\<close>, lines 136-193. The coin of line 185 is the next uniform draw from
  \<open>[0, 1)\<close>.
\<close>

definition crossover ::
  "ga \<Rightarrow> population_member \<Rightarrow> population_member \<Rightarrow> attacked_text \<Rightarrow> search_state \<Rightarrow>
   py_error + (population_member \<times> search_state)" where
  "crossover self pop_member1 pop_member2 original_text s =
     (case crossover_loop self pop_member1 pop_member2 original_text
             (max_crossover_retries self + 1) None False s of
        (child, passed_constraints, s1) \<Rightarrow>
          if post_crossover_check self \<and> \<not> passed_constraints then
            Inr (if random_uniform self (rng_pos s1) < 0.5 then pop_member1 else pop_member2,
                 s1\<lparr>rng_pos := Suc (rng_pos s1)\<rparr>)
          else
            (case child of
               None \<Rightarrow> Inl NameError
             | Some (new_text, nrpw) \<Rightarrow>
                (case call_get_goal_results self [new_text] s1 of
                   (new_results, s2) \<Rightarrow>
                     (case new_results of
                        [] \<Rightarrow> Inl IndexError
                      | r # _ \<Rightarrow>
                         Inr (\<lparr>attacked_text = new_text, result = r,
                               num_replacements_per_word = nrpw\<rparr>, s2)))))"

section \<open>The search loop\<close>

text \<open>
  \<^verbatim>\<open>sorted(population, key=lambda x: x.result.score, reverse=True)\<close>: a stable sort,
  descending in the score (members of equal score keep their order).
\<close>

definition sorted_population :: "population_member list \<Rightarrow> population_member list" where
  "sorted_population population = sort_key (\<lambda>x. - score (result x)) population"

text \<open>
  The \<^verbatim>\<open>for idx in range(pop_size - 1)\<close> loop of lines 236-251, over the pairs
  \<^verbatim>\<open>(parent1_idx[idx], parent2_idx[idx])\<close>.
\<close>

fun children_loop ::
  "ga \<Rightarrow> population_member list \<Rightarrow> goal_function_result \<Rightarrow> (nat \<times> nat) list \<Rightarrow>
   population_member list \<Rightarrow> search_state \<Rightarrow> py_error + (population_member list \<times> search_state)" where
  "children_loop self population initial_result [] children s = Inr (children, s)"
| "children_loop self population initial_result ((p1, p2) # rest) children s =
     (if p1 < length population \<and> p2 < length population then
        (case crossover self (population ! p1) (population ! p2) (result_text initial_result) s of
           Inl e \<Rightarrow> Inl e
         | Inr (child, s1) \<Rightarrow>
            if search_over s1 then Inr (children, s1)
            else
              (case perturb self child initial_result None s1 of
                 Inl e \<Rightarrow> Inl e
               | Inr (child', s2) \<Rightarrow>
                  if search_over s2 then Inr (children @ [child'], s2)
                  else children_loop self population initial_result rest (children @ [child']) s2))
      else Inl IndexError)"

text \<open>
  One pass of the \<^verbatim>\<open>for i in range(self.max_iters)\<close> loop, lines 214-253: either the loop is
  left by \<^verbatim>\<open>break\<close> with the sorted population, or the next population is built. A
  temperature of 0 makes every selection probability NaN, and the draw raises.
\<close>

datatype generation_outcome =
    Break "population_member list"
  | Next real "population_member list"

definition generation ::
  "ga \<Rightarrow> goal_function_result \<Rightarrow> nat \<Rightarrow> real \<Rightarrow> population_member list \<Rightarrow> search_state \<Rightarrow>
   py_error + (generation_outcome \<times> search_state)" where
  "generation self initial_result psize current_score population0 s =
     (let population = sorted_population population0
      in case population of
           [] \<Rightarrow> Inl IndexError
         | best # _ \<Rightarrow>
            if search_over s \<or> goal_status (result best) = SUCCEEDED then Inr (Break population, s)
            else if \<not> current_score < score (result best) \<and> give_up_if_no_improvement self then
              Inr (Break population, s)
            else
              (let current_score' =
                     (if current_score < score (result best) then score (result best) else current_score);
                   pop_scores = map (\<lambda>pm. score (result pm)) population
               in if temp self = 0 then Inl ValueError
                  else
                    (case random_choices self psize (psize - 1)
                            (select_probs (temp self) pop_scores) s of
                       Inl e \<Rightarrow> Inl e
                     | Inr (parent1_idx, s1) \<Rightarrow>
                        (case random_choices self psize (psize - 1)
                                (select_probs (temp self) pop_scores) s1 of
                           Inl e \<Rightarrow> Inl e
                         | Inr (parent2_idx, s2) \<Rightarrow>
                            (case children_loop self population initial_result
                                    (zip parent1_idx parent2_idx) [] s2 of
                               Inl e \<Rightarrow> Inl e
                             | Inr (children, s3) \<Rightarrow>
                                Inr (Next current_score' (best # children), s3))))))"

fun search_loop ::
  "ga \<Rightarrow> goal_function_result \<Rightarrow> nat \<Rightarrow> nat \<Rightarrow> real \<Rightarrow> population_member list \<Rightarrow> search_state \<Rightarrow>
   py_error + (population_member list \<times> search_state)" where
  "search_loop self initial_result psize 0 current_score population s = Inr (population, s)"
| "search_loop self initial_result psize (Suc remaining) current_score population s =
     (case generation self initial_result psize current_score population s of
        Inl e \<Rightarrow> Inl e
      | Inr (Break population', s') \<Rightarrow> Inr (population', s')
      | Inr (Next current_score' population', s') \<Rightarrow>
          search_loop self initial_result psize remaining current_score' population' s')"

definition perform_search ::
  "ga \<Rightarrow> goal_function_result \<Rightarrow> search_state \<Rightarrow> py_error + (goal_function_result \<times> search_state)" where
  "perform_search self initial_result s0 =
     (case initialize_population self initial_result (pop_size self) (s0\<lparr>search_over := False\<rparr>) of
        Inl e \<Rightarrow> Inl e
      | Inr (population, s1) \<Rightarrow>
         (case search_loop self initial_result (length population) (max_iters self)
                 (score initial_result) population s1 of
            Inl e \<Rightarrow> Inl e
          | Inr (population', s2) \<Rightarrow>
             (case population' of
                [] \<Rightarrow> Inl IndexError
              | best # _ \<Rightarrow> Inr (result best, s2))))"

section \<open>Observations on the log\<close>

text \<open>
  What the properties below read off the log: whether an entry is an oracle call that
  reported \<^verbatim>\<open>search_over = True\<close>, which collaborator an entry belongs to, and which
  word position a transformation call was asked to modify.
\<close>

fun reports_over :: "event \<Rightarrow> bool" where
  "reports_over (GetGoalResults texts results over) = over"
| "reports_over _ = False"

fun is_oracle_call :: "event \<Rightarrow> bool" where
  "is_oracle_call (GetGoalResults texts results over) = True"
| "is_oracle_call _ = False"

fun is_recombination :: "event \<Rightarrow> bool" where
  "is_recombination (CrossoverOperation p1 p2) = True"
| "is_recombination _ = False"

fun is_constraint_check :: "event \<Rightarrow> bool" where
  "is_constraint_check (CheckConstraints new_text previous_text original_text passed) = True"
| "is_constraint_check _ = False"

fun is_failed_check :: "event \<Rightarrow> bool" where
  "is_failed_check (CheckConstraints new_text previous_text original_text passed) = (\<not> passed)"
| "is_failed_check _ = False"

fun samples :: "nat \<Rightarrow> event \<Rightarrow> bool" where
  "samples i (GetTransformations current_text original_text indices_to_modify) =
     (i \<in> set indices_to_modify)"
| "samples i _ = False"

text \<open>
  \<open>committed self pm pm' new\<close>: the mutation ended by line 99-105, replacing \<open>pm\<close> by the
  candidate of maximal score of the last oracle call of \<open>new\<close>. \<open>quiet new flag\<close>: no oracle
  call of \<open>new\<close> but possibly the last one reported \<^verbatim>\<open>search_over\<close>, and the last one did only
  if \<open>flag\<close> holds.
\<close>

definition committed ::
  "ga \<Rightarrow> population_member \<Rightarrow> population_member \<Rightarrow> event list \<Rightarrow> bool" where
  "committed self pm pm' new =
     (\<exists>texts results idx.
        new \<noteq> [] \<and> last new = GetGoalResults texts results False \<and> results \<noteq> [] \<and>
        0 < Max (set (map (\<lambda>r. score r - score (result pm)) results)) \<and>
        argmax (map (\<lambda>r. score r - score (result pm)) results) < length texts \<and>
        pm' = modify_population_member self pm
                (texts ! argmax (map (\<lambda>r. score r - score (result pm)) results))
                (results ! argmax (map (\<lambda>r. score r - score (result pm)) results)) idx)"

definition quiet :: "event list \<Rightarrow> bool \<Rightarrow> bool" where
  "quiet new flag =
     (list_all (\<lambda>e. \<not> reports_over e) (butlast new) \<and>
      (flag \<or> list_all (\<lambda>e. \<not> reports_over e) new))"

section \<open>Concrete runs\<close>

text \<open>
  Small instances of the search on which the properties below are evaluated: texts without
  attack attributes, results in progress, and the state before any call.
\<close>

definition plain_text :: "string \<Rightarrow> attacked_text" where
  "plain_text w = \<lparr>text_of = w, modified_indices = {}, newly_modified_indices = {},
                   last_transformation = None\<rparr>"

definition scored :: "attacked_text \<Rightarrow> real \<Rightarrow> goal_function_result" where
  "scored t x = \<lparr>result_text = t, score = x, goal_status = IN_PROGRESS\<rparr>"

definition member :: "attacked_text \<Rightarrow> real \<Rightarrow> nat list \<Rightarrow> population_member" where
  "member t x b = \<lparr>attacked_text = t, result = scored t x, num_replacements_per_word = b\<rparr>"

definition state0 :: search_state where
  "state0 = \<lparr>search_over = False, trace = [], rng_pos = 0\<rparr>"

text \<open>
  A search whose transformation replaces the word at position 1 by one alternative, whose
  oracle scores the text "the dog sat" 1 and any other text 0, whose recombination always
  yields the text "the cat ran" with the first parent's budgets, and whose constraints
  reject every child.
\<close>

definition swap_ga :: ga where
  "swap_ga = \<lparr>pop_size = 2, max_iters = 1, temp = 1, give_up_if_no_improvement = False,
     post_crossover_check = True, max_crossover_retries = 1,
     get_transformations = (\<lambda>tr cur orig idxs.
        if idxs = [1] then [plain_text ''the dog sat''] else []),
     get_goal_results = (\<lambda>tr ts.
        (map (\<lambda>t. scored t (if text_of t = ''the dog sat'' then 1 else 0)) ts, False)),
     check_constraints = (\<lambda>tr new prev orig. False),
     modify_population_member = (\<lambda>pm t r i. \<lparr>attacked_text = t, result = r,
        num_replacements_per_word = (num_replacements_per_word pm)[i := 0]\<rparr>),
     crossover_operation = (\<lambda>tr p1 p2. (plain_text ''the cat ran'', num_replacements_per_word p1)),
     initialize_population = (\<lambda>r n s. Inr (replicate n (member (result_text r) (score r) [0, 1, 0]), s)),
     random_raw = (\<lambda>k. 0),
     random_uniform = (\<lambda>k. 0)\<rparr>"

text \<open>
  A text that carries a \<^verbatim>\<open>last_transformation\<close> entry, as a text produced by a
  transformation does.
\<close>

definition tagged_text :: "string \<Rightarrow> attacked_text" where
  "tagged_text w = \<lparr>text_of = w, modified_indices = {1}, newly_modified_indices = {1},
                    last_transformation = Some ''WordSwap''\<rparr>"

text \<open>
  \<open>copy_ga\<close>: the recombination returns the first parent's text, and the coin of the
  fallback lands on the second parent. \<open>stall_ga\<close>: every position has one candidate, which
  the oracle scores 0.
\<close>

definition copy_ga :: ga where
  "copy_ga = swap_ga\<lparr>
     crossover_operation := (\<lambda>tr p1 p2. (attacked_text p1, num_replacements_per_word p1)),
     random_uniform := (\<lambda>k. 3 / 4)\<rparr>"

definition stall_ga :: ga where
  "stall_ga = swap_ga\<lparr>
     get_transformations := (\<lambda>tr cur orig idxs. [plain_text ''the cat lay''])\<rparr>"

text \<open>
  \<open>budget_ga\<close>: three generations at most, and an oracle that scores every text 0 and
  reports \<^verbatim>\<open>search_over\<close> from its second call on.
\<close>

definition budget_ga :: ga where
  "budget_ga = swap_ga\<lparr>
     max_iters := 3,
     get_goal_results := (\<lambda>tr ts.
        (map (\<lambda>t. scored t 0) ts, 1 \<le> length (filter is_oracle_call tr)))\<rparr>"


section \<open>Properties of the mutation operator\<close>




lemma quiet_Nil: "quiet [] flag"
  by (simp add: quiet_def)

lemma quiet_prepend:
  "list_all (\<lambda>e. \<not> reports_over e) pre \<Longrightarrow> quiet new flag \<Longrightarrow> quiet (pre @ new) flag"
  by (cases "new = []") (auto simp: quiet_def butlast_append list_all_iff dest: in_set_butlastD)

lemma quiet_compose:
  "quiet new1 False \<Longrightarrow> quiet new2 flag \<Longrightarrow> quiet (new1 @ new2) flag"
  by (rule quiet_prepend) (auto simp: quiet_def)

lemma quiet_oracle_last:
  "list_all (\<lambda>e. \<not> reports_over e) pre \<Longrightarrow> quiet (pre @ [GetGoalResults texts results over]) over"
  by (auto simp: quiet_def)

lemma committed_append: "committed self pm pm' new \<Longrightarrow> committed self pm pm' (pre @ new)"
  by (auto simp: committed_def)

lemma committed_Cons: "committed self pm pm' new \<Longrightarrow> committed self pm pm' (e # new)"
  using committed_append[of self pm pm' new "[e]"] by simp

lemma sample_index_state:
  "sample_index self index nrpw s = Inr (idx, s1) \<Longrightarrow>
   trace s1 = trace s \<and> search_over s1 = search_over s"
  by (auto simp: sample_index_def Let_def split: option.splits nat.splits sum.splits)

lemma support_member: "i \<in> set (support p) \<Longrightarrow> i < length p \<and> 0 < p ! i"
  by (simp add: support_def)

lemma random_choice_support:
  "random_choice r a p = Inr idx \<Longrightarrow> idx < length p \<and> 0 < p ! idx"
proof -
  assume rc: "random_choice r a p = Inr idx"
  then have ne: "support p \<noteq> []" and idx: "idx = support p ! (r mod length (support p))"
    by (auto simp: random_choice_def split: if_splits)
  from ne have "r mod length (support p) < length (support p)"
    by simp
  then have "idx \<in> set (support p)"
    unfolding idx by (rule nth_mem)
  then show ?thesis
    by (rule support_member)
qed

lemma sample_index_positive:
  assumes "index = None \<or> index = Some 0"
    and "sample_index self index nrpw s = Inr (idx, s1)"
  shows "idx < length nrpw \<and> nrpw ! idx \<noteq> 0"
proof -
  let ?p = "map (\<lambda>n. real n / real (sum_list nrpw)) nrpw"
  from assms have "random_choice (random_raw self (rng_pos s)) (length nrpw) ?p = Inr idx"
    by (auto simp: sample_index_def Let_def split: sum.splits)
  from random_choice_support[OF this] have len0: "idx < length ?p" and p: "0 < ?p ! idx"
    by blast+
  from len0 have len: "idx < length nrpw"
    by simp
  have "?p ! idx = real (nrpw ! idx) / real (sum_list nrpw)"
    using len by (rule nth_map)
  with p have "0 < real (nrpw ! idx) / real (sum_list nrpw)"
    by (simp only:)
  then have "nrpw ! idx \<noteq> 0"
    by (cases "nrpw ! idx = 0") simp_all
  with len show ?thesis
    by simp
qed

lemma update_zero_mono:
  "i < length (nrpw[idx := 0]) \<and> nrpw[idx := 0] ! i \<noteq> 0 \<Longrightarrow>
   i < length nrpw \<and> nrpw ! i \<noteq> (0::nat)"
  by (cases "i = idx") auto

lemma call_get_transformations_state:
  "call_get_transformations self cur orig idxs s = (texts, s2) \<Longrightarrow>
   trace s2 = trace s @ [GetTransformations cur orig idxs] \<and> search_over s2 = search_over s \<and>
   rng_pos s2 = rng_pos s"
  by (auto simp: call_get_transformations_def)

lemma call_get_goal_results_state:
  "call_get_goal_results self texts s = (results, s3) \<Longrightarrow>
   trace s3 = trace s @ [GetGoalResults texts results (search_over s3)] \<and> rng_pos s3 = rng_pos s"
  by (auto simp: call_get_goal_results_def)

lemma perturb_loop_outcome:
  "perturb_loop self pm orig index k nrpw s = Inr (pm', s') \<Longrightarrow>
   \<exists>new. trace s' = trace s @ new \<and> (pm' = pm \<or> committed self pm pm' new) \<and>
         quiet new (search_over s') \<and>
         (index = None \<or> index = Some 0 \<longrightarrow>
            list_all (\<lambda>e. \<forall>i. samples i e \<longrightarrow> i < length nrpw \<and> nrpw ! i \<noteq> 0) new)"
proof (induction k arbitrary: nrpw s)
  case 0
  then show ?case by (simp add: quiet_Nil)
next
  case (Suc k)
  from Suc.prems obtain idx s1 where si: "sample_index self index nrpw s = Inr (idx, s1)"
    by (auto split: sum.splits)
  obtain texts s2 where gt:
    "call_get_transformations self (attacked_text pm) (result_text orig) [idx] s1 = (texts, s2)"
    by (cases "call_get_transformations self (attacked_text pm) (result_text orig) [idx] s1")
  let ?gt = "GetTransformations (attacked_text pm) (result_text orig) [idx]"
  have tr2: "trace s2 = trace s @ [?gt]"
    using sample_index_state[OF si] call_get_transformations_state[OF gt] by simp
  have pos: "index = None \<or> index = Some 0 \<Longrightarrow> idx < length nrpw \<and> nrpw ! idx \<noteq> 0"
    using sample_index_positive[OF _ si] by simp
  show ?case
  proof (cases "texts = []")
    case True
    then have "perturb_loop self pm orig index k nrpw s2 = Inr (pm', s')"
      using Suc.prems si gt by simp
    from Suc.IH[OF this] obtain new where new: "trace s' = trace s2 @ new"
      "pm' = pm \<or> committed self pm pm' new" "quiet new (search_over s')"
      "index = None \<or> index = Some 0 \<longrightarrow>
         list_all (\<lambda>e. \<forall>i. samples i e \<longrightarrow> i < length nrpw \<and> nrpw ! i \<noteq> 0) new"
      by blast
    have "trace s' = trace s @ ([?gt] @ new)"
      using new(1) tr2 by simp
    moreover have "pm' = pm \<or> committed self pm pm' ([?gt] @ new)"
      using new(2) committed_append by blast
    moreover have "quiet ([?gt] @ new) (search_over s')"
      using new(3) by (intro quiet_prepend) simp_all
    moreover have "index = None \<or> index = Some 0 \<longrightarrow>
         list_all (\<lambda>e. \<forall>i. samples i e \<longrightarrow> i < length nrpw \<and> nrpw ! i \<noteq> 0) ([?gt] @ new)"
      using new(4) pos by auto
    ultimately show ?thesis by blast
  next
    case False
    obtain results s3 where gr: "call_get_goal_results self texts s2 = (results, s3)"
      by (cases "call_get_goal_results self texts s2")
    let ?gr = "GetGoalResults texts results (search_over s3)"
    have tr3: "trace s3 = trace s @ ([?gt] @ [?gr])"
      using call_get_goal_results_state[OF gr] tr2 by simp
    have q3: "quiet ([?gt] @ [?gr]) (search_over s3)"
      by (rule quiet_oracle_last) simp
    have s3: "index = None \<or> index = Some 0 \<longrightarrow>
         list_all (\<lambda>e. \<forall>i. samples i e \<longrightarrow> i < length nrpw \<and> nrpw ! i \<noteq> 0) ([?gt] @ [?gr])"
      using pos by auto
    show ?thesis
    proof (cases "search_over s3")
      case True
      then have "pm' = pm" "s' = s3"
        using Suc.prems si gt gr False by simp_all
      then show ?thesis using tr3 q3 s3 by blast
    next
      case nover: False
      let ?d = "map (\<lambda>r. score r - score (result pm)) results"
      show ?thesis
      proof (cases "?d \<noteq> [] \<and> 0 < Max (set ?d)")
        case True
        then have res: "argmax ?d < length texts" "s' = s3"
          "pm' = modify_population_member self pm (texts ! argmax ?d) (results ! argmax ?d) idx"
          using Suc.prems si gt gr False nover by (auto simp: Let_def split: if_splits)
        have "committed self pm pm' ([?gt] @ [?gr])"
          unfolding committed_def using True res nover by auto
        then show ?thesis
          using tr3 q3 s3 res by blast
      next
        case False2: False
        then have run: "perturb_loop self pm orig index k (nrpw[idx := 0]) s3 = Inr (pm', s')"
          and len: "idx < length nrpw"
          using Suc.prems si gt gr False nover by (auto simp: Let_def split: if_splits)
        from Suc.IH[OF run] obtain new where new: "trace s' = trace s3 @ new"
          "pm' = pm \<or> committed self pm pm' new" "quiet new (search_over s')"
          "index = None \<or> index = Some 0 \<longrightarrow>
             list_all (\<lambda>e. \<forall>i. samples i e \<longrightarrow>
               i < length (nrpw[idx := 0]) \<and> nrpw[idx := 0] ! i \<noteq> 0) new"
          by blast
        have "trace s' = trace s @ (([?gt] @ [?gr]) @ new)"
          using new(1) tr3 by simp
        moreover have "pm' = pm \<or> committed self pm pm' (([?gt] @ [?gr]) @ new)"
          using new(2) committed_append by blast
        moreover have "quiet (([?gt] @ [?gr]) @ new) (search_over s')"
          using new(3) nover by (intro quiet_prepend) simp_all
        moreover have "index = None \<or> index = Some 0 \<longrightarrow>
             list_all (\<lambda>e. \<forall>i. samples i e \<longrightarrow> i < length nrpw \<and> nrpw ! i \<noteq> 0)
               (([?gt] @ [?gr]) @ new)"
        proof
          assume f: "index = None \<or> index = Some 0"
          with new(4) have "list_all (\<lambda>e. \<forall>i. samples i e \<longrightarrow>
               i < length (nrpw[idx := 0]) \<and> nrpw[idx := 0] ! i \<noteq> 0) new"
            by simp
          then have "list_all (\<lambda>e. \<forall>i. samples i e \<longrightarrow> i < length nrpw \<and> nrpw ! i \<noteq> 0) new"
            by (rule list.pred_mono_strong) (use update_zero_mono in blast)
          with s3 f show "list_all (\<lambda>e. \<forall>i. samples i e \<longrightarrow> i < length nrpw \<and> nrpw ! i \<noteq> 0)
               (([?gt] @ [?gr]) @ new)"
            by simp
        qed
        ultimately show ?thesis by blast
      qed
    qed
  qed
qed

text \<open>
  Without a fixed position, the calls of the loop come in pairs: a transformation call,
  followed by an oracle call when there were candidates. When the loop goes on after such
  a pair, line 107 has zeroed the working budget of the position, and the rest of the loop
  does not ask for that position again.
\<close>

lemma perturb_loop_no_resample:
  assumes free: "index = None \<or> index = Some 0"
  shows "perturb_loop self pm orig index k nrpw s = Inr (pm', s') \<Longrightarrow>
     \<exists>new. trace s' = trace s @ new \<and>
        (\<forall>texts results over rest. new \<noteq> GetGoalResults texts results over # rest) \<and>
        (\<forall>pre cur og i texts results over post.
            new = pre @ GetTransformations cur og [i] # GetGoalResults texts results over # post \<longrightarrow>
            list_all (\<lambda>e. \<not> samples i e) post)"
proof (induction k arbitrary: nrpw s)
  case 0
  then show ?case by simp
next
  case (Suc k)
  from Suc.prems obtain idx s1 where si: "sample_index self index nrpw s = Inr (idx, s1)"
    by (auto split: sum.splits)
  obtain texts s2 where gt:
    "call_get_transformations self (attacked_text pm) (result_text orig) [idx] s1 = (texts, s2)"
    by (cases "call_get_transformations self (attacked_text pm) (result_text orig) [idx] s1")
  let ?gt = "GetTransformations (attacked_text pm) (result_text orig) [idx]"
  have tr2: "trace s2 = trace s @ [?gt]"
    using sample_index_state[OF si] call_get_transformations_state[OF gt] by simp
  show ?case
  proof (cases "texts = []")
    case True
    then have "perturb_loop self pm orig index k nrpw s2 = Inr (pm', s')"
      using Suc.prems si gt by simp
    from Suc.IH[OF this] obtain new where new: "trace s' = trace s2 @ new"
      "\<forall>texts results over rest. new \<noteq> GetGoalResults texts results over # rest"
      "\<forall>pre cur og i texts results over post.
            new = pre @ GetTransformations cur og [i] # GetGoalResults texts results over # post \<longrightarrow>
            list_all (\<lambda>e. \<not> samples i e) post"
      by blast
    have c: "list_all (\<lambda>e. \<not> samples i e) post"
      if d: "?gt # new = pre @ GetTransformations cur og [i] # GetGoalResults texts' results over # post"
      for pre cur og i texts' results over post
    proof (cases pre)
      case Nil
      with d have "new = GetGoalResults texts' results over # post" by simp
      with new(2) show ?thesis by blast
    next
      case (Cons e pre')
      with d have "new = pre' @ GetTransformations cur og [i] # GetGoalResults texts' results over # post"
        by simp
      with new(3) show ?thesis by blast
    qed
    have "trace s' = trace s @ (?gt # new)"
      using new(1) tr2 by simp
    moreover have "\<forall>texts results over rest. ?gt # new \<noteq> GetGoalResults texts results over # rest"
      by simp
    ultimately show ?thesis
      using c by blast
  next
    case False
    obtain results s3 where gr: "call_get_goal_results self texts s2 = (results, s3)"
      by (cases "call_get_goal_results self texts s2")
    let ?gr = "GetGoalResults texts results (search_over s3)"
    have tr3: "trace s3 = trace s @ [?gt, ?gr]"
      using call_get_goal_results_state[OF gr] tr2 by simp
    let ?d = "map (\<lambda>r. score r - score (result pm)) results"
    show ?thesis
    proof (cases "search_over s3 \<or> (?d \<noteq> [] \<and> 0 < Max (set ?d))")
      case True
      then have "s' = s3"
        using Suc.prems si gt gr False by (auto simp: Let_def split: if_splits)
      then have tr: "trace s' = trace s @ [?gt, ?gr]"
        using tr3 by simp
      have c: "list_all (\<lambda>e. \<not> samples i e) post"
        if d: "[?gt, ?gr] = pre @ GetTransformations cur og [i] # GetGoalResults texts' results' over # post"
        for pre cur og i texts' results' over post
      proof (cases pre)
        case Nil
        with d have "post = []" by simp
        then show ?thesis by simp
      next
        case (Cons e pre')
        with d show ?thesis by (cases pre') auto
      qed
      have "\<forall>texts results over rest. [?gt, ?gr] \<noteq> GetGoalResults texts results over # rest"
        by simp
      with tr c show ?thesis
        by blast
    next
      case cont: False
      then have run: "perturb_loop self pm orig index k (nrpw[idx := 0]) s3 = Inr (pm', s')"
        and len: "idx < length nrpw"
        using Suc.prems si gt gr False by (auto simp: Let_def split: if_splits)
      from Suc.IH[OF run] obtain new where new: "trace s' = trace s3 @ new"
        "\<forall>texts results over rest. new \<noteq> GetGoalResults texts results over # rest"
        "\<forall>pre cur og i texts results over post.
            new = pre @ GetTransformations cur og [i] # GetGoalResults texts results over # post \<longrightarrow>
            list_all (\<lambda>e. \<not> samples i e) post"
        by blast
      from perturb_loop_outcome[OF run] free obtain new' where new':
        "trace s' = trace s3 @ new'"
        "list_all (\<lambda>e. \<forall>i. samples i e \<longrightarrow>
               i < length (nrpw[idx := 0]) \<and> nrpw[idx := 0] ! i \<noteq> 0) new'"
        by blast
      from new(1) new'(1) have "new' = new" by simp
      have z: "nrpw[idx := 0] ! idx = 0"
        using len by simp
      have excl: "list_all (\<lambda>e. \<not> samples idx e) new"
        unfolding list_all_iff
      proof (intro ballI notI)
        fix e assume "e \<in> set new" "samples idx e"
        with new'(2) \<open>new' = new\<close> have "nrpw[idx := 0] ! idx \<noteq> 0"
          unfolding list_all_iff by blast
        with z show False by simp
      qed
      have c: "list_all (\<lambda>e. \<not> samples i e) post"
        if d: "?gt # ?gr # new =
                 pre @ GetTransformations cur og [i] # GetGoalResults texts' results' over # post"
        for pre cur og i texts' results' over post
      proof (cases pre)
        case Nil
        with d have "i = idx" "post = new" by simp_all
        with excl show ?thesis by simp
      next
        case (Cons e pre')
        show ?thesis
        proof (cases pre')
          case Nil
          with Cons d show ?thesis by simp
        next
          case (Cons e' pre'')
          with \<open>pre = e # pre'\<close> d have
            "new = pre'' @ GetTransformations cur og [i] # GetGoalResults texts' results' over # post"
            by simp
          with new(3) show ?thesis by blast
        qed
      qed
      have "trace s' = trace s @ (?gt # ?gr # new)"
        using new(1) tr3 by simp
      moreover have "\<forall>texts results over rest. ?gt # ?gr # new \<noteq> GetGoalResults texts results over # rest"
        by simp
      ultimately show ?thesis
        using c by blast
    qed
  qed
qed



section \<open>Properties of parent selection\<close>

text \<open>
  For a positive temperature the probability strictly decreases in the score: of two
  members, the one of lower score is the likelier parent.
\<close>

lemma sum_list_exp_pos:
  fixes xs :: "real list"
  assumes "xs \<noteq> []" and "\<forall>x\<in>set xs. 0 < x"
  shows "0 < sum_list xs"
  using assms by (induction xs) (auto intro: add_pos_nonneg sum_list_nonneg less_imp_le)

lemma select_probs_decreasing:
  assumes tmp: "0 < tmp" and i: "i < length pop_scores" and j: "j < length pop_scores"
    and less: "pop_scores ! i < pop_scores ! j"
  shows "select_probs tmp pop_scores ! j < select_probs tmp pop_scores ! i"
proof -
  let ?logits = "map (\<lambda>sc. exp ((- sc) / tmp)) pop_scores"
  have ne: "?logits \<noteq> []"
    using i by auto
  have pos: "0 < sum_list ?logits"
    by (rule sum_list_exp_pos[OF ne]) auto
  have "(- (pop_scores ! j)) / tmp < (- (pop_scores ! i)) / tmp"
    using less tmp by (simp add: divide_strict_right_mono)
  then have "exp ((- (pop_scores ! j)) / tmp) < exp ((- (pop_scores ! i)) / tmp)"
    by simp
  then have "exp ((- (pop_scores ! j)) / tmp) / sum_list ?logits <
             exp ((- (pop_scores ! i)) / tmp) / sum_list ?logits"
    using pos by (rule divide_strict_right_mono)
  then show ?thesis
    using i j by (simp add: select_probs_def Let_def)
qed

text \<open>
  Claim C1. The selection probability is the normalised exponential of the negated score
  over the temperature, so it decreases in the score: in the population sorted by
  descending score with scores 1 and 0, at temperature 1, the better member at index 0 is
  drawn with a smaller probability than the worse member at index 1.
\<close>

theorem select_probs_prefers_lower_score:
  "select_probs 1 [1, 0] ! 0 < select_probs 1 [1, 0] ! 1"
  by (simp add: select_probs_def divide_strict_right_mono add_pos_pos)

section \<open>Evaluation of the concrete runs\<close>

lemmas run_defs =
  crossover_def perturb_def count_nonzero_def sample_index_def random_choice_def support_def
  call_get_transformations_def call_get_goal_results_def call_check_constraints_def
  call_crossover_operation_def child_text_def
  swap_ga_def member_def scored_def plain_text_def tagged_text_def
  state0_def Let_def

section \<open>More on the mutation operator\<close>

text \<open>
  Claim C7. A fixed position handed to \<^verbatim>\<open>_perturb\<close> is tested by \<^verbatim>\<open>if index:\<close>, which is
  false for position 0: with \<^verbatim>\<open>index = 0\<close> and budgets \<open>[0, 1, 0]\<close> the position is drawn
  from the budgets, and the transformation is asked to modify position 1, not position 0.
\<close>

theorem perturb_fixed_index_zero_ignored:
  "perturb swap_ga (member (plain_text ''the cat sat'') 0 [0, 1, 0])
      (scored (plain_text ''the cat sat'') 0) (Some 0) state0 =
     Inr (member (plain_text ''the dog sat'') 1 [0, 0, 0],
          \<lparr>search_over = False,
           trace = [GetTransformations (plain_text ''the cat sat'') (plain_text ''the cat sat'') [1],
                    GetGoalResults [plain_text ''the dog sat''] [scored (plain_text ''the dog sat'') 1] False],
           rng_pos = 1\<rparr>)"
  by (simp add: run_defs)

text \<open>
  Claim C8, as amended. In a \<^verbatim>\<open>_perturb\<close> call without a fixed position (\<^verbatim>\<open>index\<close> is
  \<^verbatim>\<open>None\<close> or 0), with \<open>new\<close> the calls it makes: every position handed to the
  transformation has a non-zero budget in the member; and once a position has been tried
  and its candidates scored, if the call goes on (the working budget of the position was
  zeroed at line 107), no later transformation call of that \<^verbatim>\<open>_perturb\<close> call asks for that
  position. The zeroing is done on the working copy only: the call returns the member it
  was given, budgets included, or what \<^verbatim>\<open>_modify_population_member\<close> builds from that
  member.
\<close>

theorem zero_budget_not_sampled_within_call:
  assumes free: "index = None \<or> index = Some 0"
    and run: "perturb self pop_member original_result index s = Inr (pm', s')"
  shows "\<exists>new. trace s' = trace s @ new \<and>
     list_all (\<lambda>e. \<forall>i. samples i e \<longrightarrow>
        i < length (num_replacements_per_word pop_member) \<and>
        num_replacements_per_word pop_member ! i \<noteq> 0) new \<and>
     (\<forall>pre cur og i texts results over post.
         new = pre @ GetTransformations cur og [i] # GetGoalResults texts results over # post \<longrightarrow>
         list_all (\<lambda>e. \<not> samples i e) post) \<and>
     (pm' = pop_member \<or>
      (\<exists>t r idx. pm' = modify_population_member self pop_member t r idx))"
proof (cases "count_nonzero (num_replacements_per_word pop_member) = 0")
  case True
  with run have "pm' = pop_member" "s' = s"
    by (simp_all add: perturb_def)
  then show ?thesis
    by (intro exI[of _ "[]"]) simp
next
  case False
  with run have loop: "perturb_loop self pop_member original_result index
      (count_nonzero (num_replacements_per_word pop_member))
      (num_replacements_per_word pop_member) s = Inr (pm', s')"
    by (simp add: perturb_def Let_def)
  from perturb_loop_outcome[OF loop] free obtain new where new:
    "trace s' = trace s @ new" "pm' = pop_member \<or> committed self pop_member pm' new"
    "list_all (\<lambda>e. \<forall>i. samples i e \<longrightarrow>
        i < length (num_replacements_per_word pop_member) \<and>
        num_replacements_per_word pop_member ! i \<noteq> 0) new"
    by blast
  from perturb_loop_no_resample[OF free loop] obtain new' where new':
    "trace s' = trace s @ new'"
    "\<forall>pre cur og i texts results over post.
         new' = pre @ GetTransformations cur og [i] # GetGoalResults texts results over # post \<longrightarrow>
         list_all (\<lambda>e. \<not> samples i e) post"
    by blast
  from new(1) new'(1) have same: "new' = new"
    by simp
  have "pm' = pop_member \<or> (\<exists>t r idx. pm' = modify_population_member self pop_member t r idx)"
    using new(2) unfolding committed_def by blast
  with new(1) new(3) new'(2) same show ?thesis
    by blast
qed

theorem zero_budget_not_sampled_within_call_witness:
  "perturb stall_ga (member (plain_text ''the cat sat'') 0 [0, 1, 1])
      (scored (plain_text ''the cat sat'') 0) None state0 =
     Inr (member (plain_text ''the cat sat'') 0 [0, 1, 1],
          \<lparr>search_over = False,
           trace = [GetTransformations (plain_text ''the cat sat'') (plain_text ''the cat sat'') [1],
                    GetGoalResults [plain_text ''the cat lay''] [scored (plain_text ''the cat lay'') 0] False,
                    GetTransformations (plain_text ''the cat sat'') (plain_text ''the cat sat'') [2],
                    GetGoalResults [plain_text ''the cat lay''] [scored (plain_text ''the cat lay'') 0] False],
           rng_pos = 2\<rparr>) \<and>
   list_all (\<lambda>e. \<not> samples 1 e)
     [GetTransformations (plain_text ''the cat sat'') (plain_text ''the cat sat'') [2],
      GetGoalResults [plain_text ''the cat lay''] [scored (plain_text ''the cat lay'') 0] False]"
proof -
  let ?m = "member (plain_text ''the cat sat'') 0 [0, 1, 1]"
  let ?cat = "plain_text ''the cat sat''"
  let ?gr = "GetGoalResults [plain_text ''the cat lay''] [scored (plain_text ''the cat lay'') 0] False"
  let ?post = "[GetTransformations ?cat ?cat [2], ?gr]"
  let ?tr = "GetTransformations ?cat ?cat [1] # ?gr # ?post"
  have free: "(None :: nat option) = None \<or> (None :: nat option) = Some 0"
    by simp
  have run: "perturb stall_ga ?m (scored ?cat 0) None state0 =
     Inr (?m, \<lparr>search_over = False, trace = ?tr, rng_pos = 2\<rparr>)"
    by (simp add: run_defs stall_ga_def)
  from zero_budget_not_sampled_within_call[OF free run] obtain new where
    tr: "trace \<lparr>search_over = False, trace = ?tr, rng_pos = 2\<rparr> = trace state0 @ new" and
    excl: "\<forall>pre cur og i texts results over post.
         new = pre @ GetTransformations cur og [i] # GetGoalResults texts results over # post \<longrightarrow>
         list_all (\<lambda>e. \<not> samples i e) post"
    by blast
  from tr have "new = [] @ GetTransformations ?cat ?cat [1] # ?gr # ?post"
    by (simp add: state0_def)
  with excl have "list_all (\<lambda>e. \<not> samples 1 e) ?post"
    by blast
  with run show ?thesis
    by simp
qed

text \<open>
  Claim C8 as stated fails. Across calls: the first call samples position 1, finds no better
  candidate and zeroes the working copy at 1; it returns the member with budgets
  \<open>[0, 1, 0]\<close>, and the next call on the returned member samples position 1 again. Within
  a call with a fixed position: with \<^verbatim>\<open>index = 1\<close> and budgets \<open>[0, 1, 1]\<close>, position 1 is
  tried, zeroed at line 107, and tried again in the second iteration.
\<close>

theorem zero_budget_forgotten_by_next_call:
  "perturb stall_ga (member (plain_text ''the cat sat'') 0 [0, 1, 0])
      (scored (plain_text ''the cat sat'') 0) None state0 =
     Inr (member (plain_text ''the cat sat'') 0 [0, 1, 0],
          \<lparr>search_over = False,
           trace = [GetTransformations (plain_text ''the cat sat'') (plain_text ''the cat sat'') [1],
                    GetGoalResults [plain_text ''the cat lay''] [scored (plain_text ''the cat lay'') 0] False],
           rng_pos = 1\<rparr>) \<and>
   perturb stall_ga (member (plain_text ''the cat sat'') 0 [0, 1, 0])
      (scored (plain_text ''the cat sat'') 0) None
      \<lparr>search_over = False,
           trace = [GetTransformations (plain_text ''the cat sat'') (plain_text ''the cat sat'') [1],
                    GetGoalResults [plain_text ''the cat lay''] [scored (plain_text ''the cat lay'') 0] False],
           rng_pos = 1\<rparr> =
     Inr (member (plain_text ''the cat sat'') 0 [0, 1, 0],
          \<lparr>search_over = False,
           trace = [GetTransformations (plain_text ''the cat sat'') (plain_text ''the cat sat'') [1],
                    GetGoalResults [plain_text ''the cat lay''] [scored (plain_text ''the cat lay'') 0] False,
                    GetTransformations (plain_text ''the cat sat'') (plain_text ''the cat sat'') [1],
                    GetGoalResults [plain_text ''the cat lay''] [scored (plain_text ''the cat lay'') 0] False],
           rng_pos = 2\<rparr>) \<and>
   perturb stall_ga (member (plain_text ''the cat sat'') 0 [0, 1, 1])
      (scored (plain_text ''the cat sat'') 0) (Some 1) state0 =
     Inr (member (plain_text ''the cat sat'') 0 [0, 1, 1],
          \<lparr>search_over = False,
           trace = [GetTransformations (plain_text ''the cat sat'') (plain_text ''the cat sat'') [1],
                    GetGoalResults [plain_text ''the cat lay''] [scored (plain_text ''the cat lay'') 0] False,
                    GetTransformations (plain_text ''the cat sat'') (plain_text ''the cat sat'') [1],
                    GetGoalResults [plain_text ''the cat lay''] [scored (plain_text ''the cat lay'') 0] False],
           rng_pos = 0\<rparr>)"
  by (simp add: run_defs stall_ga_def)

section \<open>Properties of the crossover operator\<close>

lemma call_crossover_operation_state:
  "call_crossover_operation self p1 p2 s = (raw, s1) \<Longrightarrow>
   trace s1 = trace s @ [CrossoverOperation p1 p2] \<and> search_over s1 = search_over s \<and>
   rng_pos s1 = rng_pos s"
  by (auto simp: call_crossover_operation_def)

lemma call_check_constraints_state:
  "call_check_constraints self new_text previous_text original_text s = (passed, s2) \<Longrightarrow>
   trace s2 = trace s @ [CheckConstraints new_text previous_text original_text passed] \<and>
   search_over s2 = search_over s \<and> rng_pos s2 = rng_pos s"
  by (auto simp: call_check_constraints_def)

lemma crossover_loop_outcome:
  "crossover_loop self pm1 pm2 ot k child False s = (child', passed', s') \<Longrightarrow>
   \<exists>new. trace s' = trace s @ new \<and> search_over s' = search_over s \<and> rng_pos s' = rng_pos s \<and>
     list_all (\<lambda>e. is_recombination e \<or> is_constraint_check e) new \<and>
     length (filter is_recombination new) \<le> k \<and>
     length (filter is_failed_check new) \<le> k \<and>
     (0 < k \<longrightarrow> child' \<noteq> None) \<and>
     (0 < k \<and> length (filter is_failed_check new) = k \<longrightarrow> post_crossover_check self \<and> \<not> passed')"
proof (induction k arbitrary: child s)
  case 0
  then show ?case by simp
next
  case (Suc k)
  obtain raw_text nrpw s1 where co:
    "call_crossover_operation self pm1 pm2 s = ((raw_text, nrpw), s1)"
    by (cases "call_crossover_operation self pm1 pm2 s") auto
  let ?co = "CrossoverOperation pm1 pm2"
  have st1: "trace s1 = trace s @ [?co]" "search_over s1 = search_over s" "rng_pos s1 = rng_pos s"
    using call_crossover_operation_state[OF co] by simp_all
  let ?x1 = "attacked_text pm1" and ?x2 = "attacked_text pm2"
  let ?new_text = "child_text ?x1 ?x2 raw_text"
  let ?prev = "if last_transformation ?x1 \<noteq> None then ?x1 else ?x2"
  show ?case
  proof (cases "\<not> post_crossover_check self \<or>
            (text_of ?new_text = text_of ?x1 \<or> text_of ?new_text = text_of ?x2)")
    case True
    then have "child' = Some (?new_text, nrpw)" "passed' = False" "s' = s1"
      using Suc.prems co by (auto simp: Let_def)
    then show ?thesis
      using st1 True by (intro exI[of _ "[?co]"]) auto
  next
    case chk: False
    show ?thesis
    proof (cases "last_transformation ?new_text \<noteq> None")
      case False
      then have "child' = Some (?new_text, nrpw)" "passed' = True" "s' = s1"
        using Suc.prems co chk by (auto simp: Let_def)
      then show ?thesis
        using st1 by (intro exI[of _ "[?co]"]) auto
    next
      case True
      obtain passed s2 where cc:
        "call_check_constraints self ?new_text ?prev ot s1 = (passed, s2)"
        by (cases "call_check_constraints self ?new_text ?prev ot s1")
      let ?cc = "CheckConstraints ?new_text ?prev ot passed"
      have st2: "trace s2 = trace s @ [?co, ?cc]" "search_over s2 = search_over s"
        "rng_pos s2 = rng_pos s"
        using call_check_constraints_state[OF cc] st1 by simp_all
      show ?thesis
      proof (cases passed)
        case True
        then have "child' = Some (?new_text, nrpw)" "passed' = True" "s' = s2"
          using Suc.prems co chk \<open>last_transformation ?new_text \<noteq> None\<close> cc
          by (auto simp: Let_def)
        then show ?thesis
          using st2 True by (intro exI[of _ "[?co, ?cc]"]) auto
      next
        case False
        then have run: "crossover_loop self pm1 pm2 ot k (Some (?new_text, nrpw)) False s2 =
            (child', passed', s')"
          using Suc.prems co chk \<open>last_transformation ?new_text \<noteq> None\<close> cc
          by (auto simp: Let_def)
        from Suc.IH[OF run] obtain new where new:
          "trace s' = trace s2 @ new" "search_over s' = search_over s2" "rng_pos s' = rng_pos s2"
          "list_all (\<lambda>e. is_recombination e \<or> is_constraint_check e) new"
          "length (filter is_recombination new) \<le> k"
          "length (filter is_failed_check new) \<le> k"
          "0 < k \<longrightarrow> child' \<noteq> None"
          "0 < k \<and> length (filter is_failed_check new) = k \<longrightarrow> post_crossover_check self \<and> \<not> passed'"
          by blast
        have k0: "k = 0 \<Longrightarrow> child' = Some (?new_text, nrpw) \<and> passed' = False"
          using run by simp
        have pc: "post_crossover_check self"
          using chk by simp
        show ?thesis
          using new st2 False k0 pc
          by (intro exI[of _ "[?co, ?cc] @ new"]) (cases "k = 0"; auto)
      qed
    qed
  qed
qed



text \<open>
  Claim C6. With the check after crossover enabled, a child whose text is the first
  parent's text leaves the retry loop with \<^verbatim>\<open>passed_constraints\<close> still false: the child
  is not scored, no oracle call is made, and the coin returns a parent, here the second
  one, whose text differs from the child's.
\<close>

theorem crossover_identical_child_replaced_by_parent:
  "post_crossover_check copy_ga \<and>
   crossover copy_ga (member (tagged_text ''the cat sat'') 0 [0, 1, 0])
     (member (tagged_text ''the cat lay'') 0 [0, 1, 0]) (plain_text ''the cat sat'') state0 =
   Inr (member (tagged_text ''the cat lay'') 0 [0, 1, 0],
    \<lparr>search_over = False,
     trace = [CrossoverOperation (member (tagged_text ''the cat sat'') 0 [0, 1, 0])
                (member (tagged_text ''the cat lay'') 0 [0, 1, 0])],
     rng_pos = 1\<rparr>)"
  by (simp add: run_defs copy_ga_def)

text \<open>
  With the check after crossover enabled, untagged parents and an untagged recombined text
  that differs from both parents' texts, the first attempt is accepted without a
  constraint check: lines 174-175.
\<close>

lemma crossover_untagged_child_accepted:
  assumes check: "post_crossover_check self"
    and tag1: "last_transformation (attacked_text pop_member1) = None"
    and tag2: "last_transformation (attacked_text pop_member2) = None"
    and recomb: "call_crossover_operation self pop_member1 pop_member2 s = ((raw_text, nrpw), s1)"
    and tag: "last_transformation raw_text = None"
    and differs1: "text_of raw_text \<noteq> text_of (attacked_text pop_member1)"
    and differs2: "text_of raw_text \<noteq> text_of (attacked_text pop_member2)"
    and scoring: "call_get_goal_results self
                   [child_text (attacked_text pop_member1) (attacked_text pop_member2) raw_text] s1 =
                 (results, s2)"
  shows "trace s2 = trace s @
           [CrossoverOperation pop_member1 pop_member2,
            GetGoalResults
              [child_text (attacked_text pop_member1) (attacked_text pop_member2) raw_text]
              results (search_over s2)] \<and>
         crossover self pop_member1 pop_member2 original_text s =
           (case results of
              [] \<Rightarrow> Inl IndexError
            | r # _ \<Rightarrow>
               Inr (\<lparr>attacked_text =
                       child_text (attacked_text pop_member1) (attacked_text pop_member2) raw_text,
                     result = r, num_replacements_per_word = nrpw\<rparr>, s2))"
proof -
  let ?c = "child_text (attacked_text pop_member1) (attacked_text pop_member2) raw_text"
  have c: "text_of ?c = text_of raw_text" "last_transformation ?c = None"
    using tag1 tag2 tag by (simp_all add: child_text_def Let_def)
  have loop: "crossover_loop self pop_member1 pop_member2 original_text
      (max_crossover_retries self + 1) None False s = (Some (?c, nrpw), True, s1)"
    using check recomb c differs1 differs2 by (simp add: Let_def)
  have tr: "trace s2 = trace s @
           [CrossoverOperation pop_member1 pop_member2, GetGoalResults [?c] results (search_over s2)]"
    using call_crossover_operation_state[OF recomb] call_get_goal_results_state[OF scoring] by simp
  have "crossover self pop_member1 pop_member2 original_text s =
           (case results of
              [] \<Rightarrow> Inl IndexError
            | r # _ \<Rightarrow>
               Inr (\<lparr>attacked_text = ?c, result = r, num_replacements_per_word = nrpw\<rparr>, s2))"
    using loop scoring by (simp add: crossover_def)
  with tr show ?thesis
    by (intro conjI)
qed

text \<open>
  Claim C10. With the check after crossover enabled and neither parent carrying a
  \<^verbatim>\<open>last_transformation\<close> entry (nor the child), the constraints are indeed not checked,
  but a child whose text is a parent's text leaves the retry loop at line 163 with
  \<^verbatim>\<open>passed_constraints\<close> still false: it is not scored, the oracle is not called, and the
  coin returns a parent, here the second one.
\<close>

theorem crossover_untagged_identical_child_not_scored:
  "post_crossover_check copy_ga \<and>
   last_transformation (attacked_text (member (plain_text ''the cat sat'') 0 [0, 1, 0])) = None \<and>
   last_transformation (attacked_text (member (plain_text ''the cat lay'') 0 [0, 1, 0])) = None \<and>
   crossover copy_ga (member (plain_text ''the cat sat'') 0 [0, 1, 0])
     (member (plain_text ''the cat lay'') 0 [0, 1, 0]) (plain_text ''the cat sat'') state0 =
   Inr (member (plain_text ''the cat lay'') 0 [0, 1, 0],
    \<lparr>search_over = False,
     trace = [CrossoverOperation (member (plain_text ''the cat sat'') 0 [0, 1, 0])
                (member (plain_text ''the cat lay'') 0 [0, 1, 0])],
     rng_pos = 1\<rparr>)"
  by (simp add: run_defs copy_ga_def)

section \<open>Properties of the search loop\<close>

lemma sorted_population_best:
  assumes "sorted_population population = best # rest"
  shows "best \<in> set population \<and> (\<forall>m\<in>set population. score (result m) \<le> score (result best))"
proof -
  let ?f = "\<lambda>x. - score (result x)"
  have s: "set (best # rest) = set population"
    using assms[symmetric] by (simp add: sorted_population_def)
  have "sorted (map ?f (best # rest))"
    using assms[symmetric] by (simp add: sorted_population_def)
  then have "\<forall>m\<in>set rest. ?f best \<le> ?f m"
    by simp
  then have "\<forall>m\<in>set (best # rest). score (result m) \<le> score (result best)"
    by simp
  with s show ?thesis
    by auto
qed

lemma random_choices_state:
  "random_choices self a n p s = Inr (idxs, s1) \<Longrightarrow>
   trace s1 = trace s \<and> search_over s1 = search_over s"
  by (auto simp: random_choices_def split: if_splits)

lemma select_probs_pair: "select_probs 1 [0, 0] = [1 / 2, 1 / 2]"
  by (simp add: select_probs_def)

lemma support_pair: "support [1 / 2, 1 / 2] = [0, 1]"
  by (simp add: support_def)


lemmas loop_defs =
  perform_search_def generation_def sorted_population_def random_choices_def
  select_probs_pair support_pair swap_ga_def member_def scored_def plain_text_def state0_def
  numeral_2_eq_2 numeral_3_eq_3

text \<open>
  Claim C9. A pass of the generation loop that builds a next population puts the head
  \<open>best\<close> of the sorted population, a member of maximal score of the current population,
  unchanged at index 0 of the next population, before the children that the construction
  loop returns.
\<close>

theorem elitism:
  assumes "generation self initial_result psize current_score population s =
             Inr (Next current_score' population', s')"
  shows "\<exists>best rest children parents s2.
           sorted_population population = best # rest \<and>
           best \<in> set population \<and>
           (\<forall>m\<in>set population. score (result m) \<le> score (result best)) \<and>
           children_loop self (best # rest) initial_result parents [] s2 = Inr (children, s') \<and>
           population' = best # children \<and> population' ! 0 = best"
proof -
  from assms obtain best rest where srt: "sorted_population population = best # rest"
    by (cases "sorted_population population") (auto simp: generation_def Let_def)
  from assms srt obtain parents s2 children where
    "children_loop self (best # rest) initial_result parents [] s2 = Inr (children, s')"
    "population' = best # children"
    by (auto simp: generation_def Let_def split: if_splits sum.splits)
  with srt sorted_population_best[OF srt] show ?thesis
    by (intro exI[of _ best] exI[of _ rest] exI[of _ children] exI[of _ parents] exI[of _ s2]) simp
qed

theorem elitism_witness:
  "generation swap_ga (scored (plain_text ''the cat sat'') 0) 2 0
     [member (plain_text ''the cat sat'') 0 [0, 1, 0],
      member (plain_text ''the cat sat'') 0 [0, 1, 0]] state0 =
   Inr (Next 0
          [member (plain_text ''the cat sat'') 0 [0, 1, 0],
           member (plain_text ''the dog sat'') 1 [0, 0, 0]],
        \<lparr>search_over = False,
         trace =
           [CrossoverOperation (member (plain_text ''the cat sat'') 0 [0, 1, 0])
              (member (plain_text ''the cat sat'') 0 [0, 1, 0]),
            GetGoalResults [plain_text ''the cat ran''] [scored (plain_text ''the cat ran'') 0] False,
            GetTransformations (plain_text ''the cat ran'') (plain_text ''the cat sat'') [1],
            GetGoalResults [plain_text ''the dog sat''] [scored (plain_text ''the dog sat'') 1] False],
         rng_pos = 3\<rparr>) \<and>
   [member (plain_text ''the cat sat'') 0 [0, 1, 0],
    member (plain_text ''the dog sat'') 1 [0, 0, 0]] ! 0 \<in>
     set [member (plain_text ''the cat sat'') 0 [0, 1, 0],
          member (plain_text ''the cat sat'') 0 [0, 1, 0]]"
proof -
  let ?cat = "member (plain_text ''the cat sat'') 0 [0, 1, 0]"
  let ?dog = "member (plain_text ''the dog sat'') 1 [0, 0, 0]"
  let ?s = "\<lparr>search_over = False,
         trace =
           [CrossoverOperation ?cat ?cat,
            GetGoalResults [plain_text ''the cat ran''] [scored (plain_text ''the cat ran'') 0] False,
            GetTransformations (plain_text ''the cat ran'') (plain_text ''the cat sat'') [1],
            GetGoalResults [plain_text ''the dog sat''] [scored (plain_text ''the dog sat'') 1] False],
         rng_pos = 3\<rparr>"
  have gen: "generation swap_ga (scored (plain_text ''the cat sat'') 0) 2 0 [?cat, ?cat] state0 =
      Inr (Next 0 [?cat, ?dog], ?s)"
    apply (simp add: loop_defs)
    apply (simp add: run_defs)
    done
  from elitism[OF gen] obtain best children where
    "[?cat, ?dog] = best # children" "[?cat, ?dog] ! 0 = best" "best \<in> set [?cat, ?cat]"
    by blast
  then have "[?cat, ?dog] ! 0 \<in> set [?cat, ?cat]"
    by simp
  with gen show ?thesis
    by (intro conjI)
qed

lemma perturb_quiet:
  assumes "perturb self pm orig index s = Inr (pm', s')"
  shows "\<exists>new. trace s' = trace s @ new \<and> quiet new (search_over s')"
proof (cases "count_nonzero (num_replacements_per_word pm) = 0")
  case True
  with assms have "s' = s"
    by (simp add: perturb_def)
  then show ?thesis
    by (simp add: quiet_Nil)
next
  case False
  with assms have "perturb_loop self pm orig index
      (count_nonzero (num_replacements_per_word pm)) (num_replacements_per_word pm) s = Inr (pm', s')"
    by (simp add: perturb_def Let_def)
  from perturb_loop_outcome[OF this] show ?thesis
    by blast
qed

lemma crossover_quiet:
  assumes "crossover self pm1 pm2 ot s = Inr (m, s')"
  shows "\<exists>new. trace s' = trace s @ new \<and> quiet new (search_over s')"
proof -
  obtain child passed s1 where loop:
    "crossover_loop self pm1 pm2 ot (max_crossover_retries self + 1) None False s = (child, passed, s1)"
    by (cases "crossover_loop self pm1 pm2 ot (max_crossover_retries self + 1) None False s")
  from crossover_loop_outcome[OF loop] obtain new where new:
    "trace s1 = trace s @ new" "list_all (\<lambda>e. is_recombination e \<or> is_constraint_check e) new"
    by blast
  have "\<not> reports_over e" if "is_recombination e \<or> is_constraint_check e" for e
    using that by (cases e) auto
  with new(2) have clean: "list_all (\<lambda>e. \<not> reports_over e) new"
    by (auto simp: list_all_iff)
  show ?thesis
  proof (cases "post_crossover_check self \<and> \<not> passed")
    case True
    with assms loop have "trace s' = trace s1"
      by (auto simp: crossover_def)
    moreover have "quiet new (search_over s')"
      using clean by (auto simp: quiet_def list_all_iff dest: in_set_butlastD)
    ultimately show ?thesis
      using new(1) by auto
  next
    case False
    with assms loop obtain c nrpw where ch: "child = Some (c, nrpw)"
      by (cases child) (auto simp: crossover_def)
    obtain results s2 where gr: "call_get_goal_results self [c] s1 = (results, s2)"
      by (cases "call_get_goal_results self [c] s1")
    from assms loop False ch gr have s': "s' = s2"
      by (cases results) (auto simp: crossover_def)
    have "trace s' = trace s @ (new @ [GetGoalResults [c] results (search_over s')])"
      using call_get_goal_results_state[OF gr] s' new(1) by simp
    moreover have "quiet (new @ [GetGoalResults [c] results (search_over s')]) (search_over s')"
      using clean by (rule quiet_oracle_last)
    ultimately show ?thesis
      by blast
  qed
qed

lemma children_loop_quiet:
  "children_loop self population ir parents children s = Inr (children', s') \<Longrightarrow>
   \<exists>new. trace s' = trace s @ new \<and> quiet new (search_over s')"
proof (induction parents arbitrary: children s)
  case Nil
  then show ?case by (simp add: quiet_Nil)
next
  case (Cons pr parents)
  obtain p1 p2 where pr: "pr = (p1, p2)" by (cases pr)
  from Cons.prems pr obtain child s1 where
    cr: "crossover self (population ! p1) (population ! p2) (result_text ir) s = Inr (child, s1)"
    by (auto split: if_splits sum.splits)
  from crossover_quiet[OF cr] obtain new1 where new1:
    "trace s1 = trace s @ new1" "quiet new1 (search_over s1)"
    by blast
  show ?case
  proof (cases "search_over s1")
    case True
    with Cons.prems pr cr have "s' = s1"
      by (auto split: if_splits)
    with new1 show ?thesis by blast
  next
    case nover1: False
    with Cons.prems pr cr obtain child' s2 where
      pt: "perturb self child ir None s1 = Inr (child', s2)"
      by (auto split: if_splits sum.splits)
    from perturb_quiet[OF pt] obtain new2 where new2:
      "trace s2 = trace s1 @ new2" "quiet new2 (search_over s2)"
      by blast
    have q12: "quiet (new1 @ new2) (search_over s2)"
      using new1(2) new2(2) nover1 by (auto intro: quiet_compose)
    have tr12: "trace s2 = trace s @ (new1 @ new2)"
      using new1(1) new2(1) by simp
    show ?thesis
    proof (cases "search_over s2")
      case True
      with Cons.prems pr cr nover1 pt have "s' = s2"
        by (auto split: if_splits)
      with q12 tr12 show ?thesis by blast
    next
      case nover2: False
      with Cons.prems pr cr nover1 pt have
        "children_loop self population ir parents (children @ [child']) s2 = Inr (children', s')"
        by (auto split: if_splits)
      from Cons.IH[OF this] obtain new3 where new3:
        "trace s' = trace s2 @ new3" "quiet new3 (search_over s')"
        by blast
      have "quiet ((new1 @ new2) @ new3) (search_over s')"
        using quiet_compose[of "new1 @ new2" new3 "search_over s'"] q12 new3(2) nover2 by simp
      moreover have "trace s' = trace s @ ((new1 @ new2) @ new3)"
        using tr12 new3(1) by simp
      ultimately show ?thesis by blast
    qed
  qed
qed

lemma generation_quiet:
  assumes "generation self ir psize cs population s = Inr (out, s')"
  shows "\<exists>new. trace s' = trace s @ new \<and> quiet new (search_over s') \<and>
           (search_over s \<longrightarrow> s' = s \<and> (\<exists>p. out = Break p))"
proof -
  from assms obtain best rest where srt: "sorted_population population = best # rest"
    by (cases "sorted_population population") (auto simp: generation_def Let_def)
  show ?thesis
  proof (cases "\<exists>p. out = Break p")
    case True
    with assms srt have "s' = s"
      by (auto simp: generation_def Let_def split: if_splits sum.splits)
    with True show ?thesis
      by (auto simp: quiet_Nil)
  next
    case False
    with assms srt obtain p1 s1 p2 s2 children where
      nover: "\<not> search_over s" and
      r1: "random_choices self psize (psize - 1)
             (select_probs (temp self) (map (\<lambda>pm. score (result pm)) (best # rest))) s = Inr (p1, s1)" and
      r2: "random_choices self psize (psize - 1)
             (select_probs (temp self) (map (\<lambda>pm. score (result pm)) (best # rest))) s1 = Inr (p2, s2)" and
      cl: "children_loop self (best # rest) ir (zip p1 p2) [] s2 = Inr (children, s')"
      by (auto simp: generation_def Let_def split: if_splits sum.splits)
    from children_loop_quiet[OF cl] obtain new where
      "trace s' = trace s2 @ new" "quiet new (search_over s')"
      by blast
    with random_choices_state[OF r1] random_choices_state[OF r2] nover show ?thesis
      by auto
  qed
qed

lemma search_loop_quiet:
  "search_loop self ir psize remaining cs population s = Inr (population', s') \<Longrightarrow>
   \<exists>new. trace s' = trace s @ new \<and> quiet new (search_over s') \<and> (search_over s \<longrightarrow> s' = s)"
proof (induction remaining arbitrary: cs population s)
  case 0
  then show ?case by (simp add: quiet_Nil)
next
  case (Suc remaining)
  from Suc.prems obtain out s1 where
    gen: "generation self ir psize cs population s = Inr (out, s1)"
    by (auto split: sum.splits)
  from generation_quiet[OF gen] obtain new1 where new1:
    "trace s1 = trace s @ new1" "quiet new1 (search_over s1)"
    "search_over s \<longrightarrow> s1 = s \<and> (\<exists>p. out = Break p)"
    by blast
  show ?case
  proof (cases out)
    case (Break p)
    with Suc.prems gen have "s' = s1"
      by simp
    with new1 show ?thesis by blast
  next
    case (Next cs' p)
    with Suc.prems gen have run: "search_loop self ir psize remaining cs' p s1 = Inr (population', s')"
      by simp
    from Suc.IH[OF run] obtain new2 where new2:
      "trace s' = trace s1 @ new2" "quiet new2 (search_over s')" "search_over s1 \<longrightarrow> s' = s1"
      by blast
    from Next new1(3) have nover: "\<not> search_over s"
      by auto
    show ?thesis
    proof (cases "search_over s1")
      case True
      with new2(3) have "s' = s1" by simp
      with new1 nover show ?thesis by blast
    next
      case False
      with new1(2) new2(2) have "quiet (new1 @ new2) (search_over s')"
        by (auto intro: quiet_compose)
      moreover have "trace s' = trace s @ (new1 @ new2)"
        using new1(1) new2(1) by simp
      ultimately show ?thesis
        using nover by blast
    qed
  qed
qed

lemma quiet_last:
  assumes "quiet new flag" and "new = pre @ e # post" and "reports_over e"
  shows "post = []"
proof (rule ccontr)
  assume "post \<noteq> []"
  then have "e \<in> set (butlast new)"
    using assms(2) by (simp add: butlast_append)
  with assms(1) assms(3) show False
    by (auto simp: quiet_def list_all_iff)
qed

text \<open>
  Claim C4. Let \<open>new\<close> be the calls that \<^verbatim>\<open>_perform_search\<close> makes after
  \<^verbatim>\<open>_initialize_population\<close> has returned. An oracle call of \<open>new\<close> that reported
  \<^verbatim>\<open>search_over = True\<close> is the last entry of \<open>new\<close>: no collaborator at all is called after
  it. If the flag is already set when the initialisation returns, \<open>new\<close> is empty.
\<close>

theorem no_call_after_search_over:
  assumes init: "initialize_population self initial_result (pop_size self)
                   (s0\<lparr>search_over := False\<rparr>) = Inr (population, s1)"
    and run: "perform_search self initial_result s0 = Inr (res, s2)"
  shows "\<exists>new. trace s2 = trace s1 @ new \<and>
           (search_over s1 \<longrightarrow> new = []) \<and>
           (\<forall>pre e post. new = pre @ e # post \<and> reports_over e \<longrightarrow> post = [])"
proof -
  from init run obtain population' where
    "search_loop self initial_result (length population) (max_iters self) (score initial_result)
       population s1 = Inr (population', s2)"
    by (auto simp: perform_search_def split: sum.splits list.splits)
  from search_loop_quiet[OF this] obtain new where new:
    "trace s2 = trace s1 @ new" "quiet new (search_over s2)" "search_over s1 \<longrightarrow> s2 = s1"
    by blast
  have "search_over s1 \<longrightarrow> new = []"
    using new(1) new(3) by auto
  moreover have "\<forall>pre e post. new = pre @ e # post \<and> reports_over e \<longrightarrow> post = []"
    using quiet_last[OF new(2)] by blast
  ultimately show ?thesis
    using new(1) by blast
qed

theorem no_call_after_search_over_witness:
  "initialize_population budget_ga (scored (plain_text ''the cat sat'') 0) (pop_size budget_ga)
     (state0\<lparr>search_over := False\<rparr>) =
     Inr ([member (plain_text ''the cat sat'') 0 [0, 1, 0],
           member (plain_text ''the cat sat'') 0 [0, 1, 0]], state0) \<and>
   perform_search budget_ga (scored (plain_text ''the cat sat'') 0) state0 =
     Inr (scored (plain_text ''the cat sat'') 0,
        \<lparr>search_over = True,
         trace =
           [CrossoverOperation (member (plain_text ''the cat sat'') 0 [0, 1, 0])
              (member (plain_text ''the cat sat'') 0 [0, 1, 0]),
            GetGoalResults [plain_text ''the cat ran''] [scored (plain_text ''the cat ran'') 0] False,
            GetTransformations (plain_text ''the cat ran'') (plain_text ''the cat sat'') [1],
            GetGoalResults [plain_text ''the dog sat''] [scored (plain_text ''the dog sat'') 0] True],
         rng_pos = 3\<rparr>) \<and>
   \<not> (\<exists>pre e post.
        [CrossoverOperation (member (plain_text ''the cat sat'') 0 [0, 1, 0])
              (member (plain_text ''the cat sat'') 0 [0, 1, 0]),
            GetGoalResults [plain_text ''the cat ran''] [scored (plain_text ''the cat ran'') 0] False,
            GetTransformations (plain_text ''the cat ran'') (plain_text ''the cat sat'') [1],
            GetGoalResults [plain_text ''the dog sat''] [scored (plain_text ''the dog sat'') 0] True] =
          pre @ e # post \<and> reports_over e \<and> post \<noteq> [])"
proof -
  let ?cat = "member (plain_text ''the cat sat'') 0 [0, 1, 0]"
  let ?tr = "[CrossoverOperation ?cat ?cat,
            GetGoalResults [plain_text ''the cat ran''] [scored (plain_text ''the cat ran'') 0] False,
            GetTransformations (plain_text ''the cat ran'') (plain_text ''the cat sat'') [1],
            GetGoalResults [plain_text ''the dog sat''] [scored (plain_text ''the dog sat'') 0] True]"
  let ?s2 = "\<lparr>search_over = True, trace = ?tr, rng_pos = 3\<rparr>"
  have init: "initialize_population budget_ga (scored (plain_text ''the cat sat'') 0)
      (pop_size budget_ga) (state0\<lparr>search_over := False\<rparr>) = Inr ([?cat, ?cat], state0)"
    by (simp add: budget_ga_def loop_defs)
  have run: "perform_search budget_ga (scored (plain_text ''the cat sat'') 0) state0 =
      Inr (scored (plain_text ''the cat sat'') 0, ?s2)"
    apply (simp add: budget_ga_def loop_defs)
    apply (simp add: run_defs generation_def sorted_population_def)
    done
  from no_call_after_search_over[OF init run] obtain new where
    tr: "trace ?s2 = trace state0 @ new" and
    last: "\<forall>pre e post. new = pre @ e # post \<and> reports_over e \<longrightarrow> post = []"
    by blast
  from tr have "new = ?tr"
    by (simp add: state0_def)
  with last have "\<not> (\<exists>pre e post. ?tr = pre @ e # post \<and> reports_over e \<and> post \<noteq> [])"
    by blast
  with init run show ?thesis
    by (intro conjI)
qed

text \<open>
  Claim C2. When the generation loop ends because \<^verbatim>\<open>max_iters\<close> generations were built,
  the last population is \<^verbatim>\<open>[population[0]] + children\<close>, not sorted again: with one
  generation, the child "the dog sat" of score 1 is in the final population, and the
  result returned is that of the elite "the cat sat", of score 0.
\<close>

theorem last_generation_not_sorted:
  "perform_search swap_ga (scored (plain_text ''the cat sat'') 0) state0 =
     Inr (result (member (plain_text ''the cat sat'') 0 [0, 1, 0]),
        \<lparr>search_over = False,
         trace =
           [CrossoverOperation (member (plain_text ''the cat sat'') 0 [0, 1, 0])
              (member (plain_text ''the cat sat'') 0 [0, 1, 0]),
            GetGoalResults [plain_text ''the cat ran''] [scored (plain_text ''the cat ran'') 0] False,
            GetTransformations (plain_text ''the cat ran'') (plain_text ''the cat sat'') [1],
            GetGoalResults [plain_text ''the dog sat''] [scored (plain_text ''the dog sat'') 1] False],
         rng_pos = 3\<rparr>) \<and>
   search_loop swap_ga (scored (plain_text ''the cat sat'') 0) 2 (max_iters swap_ga)
     (score (scored (plain_text ''the cat sat'') 0))
     [member (plain_text ''the cat sat'') 0 [0, 1, 0],
      member (plain_text ''the cat sat'') 0 [0, 1, 0]] state0 =
     Inr ([member (plain_text ''the cat sat'') 0 [0, 1, 0],
           member (plain_text ''the dog sat'') 1 [0, 0, 0]],
        \<lparr>search_over = False,
         trace =
           [CrossoverOperation (member (plain_text ''the cat sat'') 0 [0, 1, 0])
              (member (plain_text ''the cat sat'') 0 [0, 1, 0]),
            GetGoalResults [plain_text ''the cat ran''] [scored (plain_text ''the cat ran'') 0] False,
            GetTransformations (plain_text ''the cat ran'') (plain_text ''the cat sat'') [1],
            GetGoalResults [plain_text ''the dog sat''] [scored (plain_text ''the dog sat'') 1] False],
         rng_pos = 3\<rparr>) \<and>
   score (result (member (plain_text ''the cat sat'') 0 [0, 1, 0])) <
     score (result (member (plain_text ''the dog sat'') 1 [0, 0, 0]))"
  apply (simp add: loop_defs)
  apply (simp add: run_defs)
  done

end
